theory Spec2Isabelle
  imports Complex_Main
begin

section \<open>The fuzzing campaign runner of zemacs (fuzz_runner.py)\<close>

text \<open>
  The script drives an external executable: it draws a payload, spawns the target, hands
  the payload to its standard input, waits at most one second, and stores the payload in a
  file when the target hangs or exits with a non-zero status. Everything outside the
  script (the two sources of randomness, the operating system's answer to a spawn, what
  the target does with its input, what the disk does with a write, the clock) is a field
  of the record \<open>world\<close>; everything the script changes (its counter, the cursors of the
  two random sources, the process table, the file system, the text it prints) is a field
  of the record \<open>state\<close>, passed through every statement and returned updated.
  An exception that the script does not catch ends the run: a function that can raise
  returns the exception beside the state reached.
\<close>

subsection \<open>Module constants\<close>

type_synonym bytes = "char list"

record config =
  HARNESS :: string
  ITERATIONS :: nat
  CRASHES_DIR :: string

definition reference_config :: config where
  "reference_config = \<lparr>HARNESS = ''./zemacs-fuzz'', ITERATIONS = 5000, CRASHES_DIR = ''crashes''\<rparr>"

subsection \<open>The outside world and the state of a run\<close>

datatype behaviour = Exits int | Hangs

datatype disk_response = DiskOk | OpenFails | WriteFails nat

datatype exn = OSError string

datatype pstatus = Running | Killed | Reaped int

record proc =
  input :: bytes
  status :: pstatus

record rng =
  rpos :: nat
  upos :: nat

text \<open>
  \<open>seeded\<close> is the stream of draws of the module \<open>random\<close> (the generator that
  \<open>random.seed\<close> controls), \<open>entropy\<close> the stream of bytes of \<open>os.urandom\<close>.
  \<open>spawn path k\<close> tells whether the \<open>k\<close>-th call of \<open>subprocess.Popen\<close> succeeds,
  \<open>target k data\<close> what the \<open>k\<close>-th process does on the input \<open>data\<close> within the
  timeout of one second, \<open>disk name\<close> how opening and writing the file \<open>name\<close> ends
  (\<open>WriteFails k\<close>: the file is created and the flush fails after \<open>k\<close> bytes).
  \<open>elapsed_2f\<close> is the text of \<open>{elapsed:.2f}\<close>.
\<close>

record world =
  seeded :: "nat \<Rightarrow> nat"
  entropy :: "nat \<Rightarrow> char"
  dirs0 :: "string set"
  files0 :: "string \<rightharpoonup> bytes"
  makedirs_ok :: bool
  spawn :: "string \<Rightarrow> nat \<Rightarrow> bool"
  target :: "nat \<Rightarrow> bytes \<Rightarrow> behaviour"
  disk :: "string \<Rightarrow> disk_response"
  elapsed_2f :: string

text \<open>
  \<open>handles\<close> maps the name of every file open for writing to its buffer, not yet
  flushed. \<open>artifacts\<close> is the trace of the files written and closed without an
  error, in order; the script has no such variable, the trace only observes it.
\<close>

record state =
  crashes :: nat
  gen :: rng
  procs :: "proc list"
  dirs :: "string set"
  files :: "string \<rightharpoonup> bytes"
  handles :: "string \<rightharpoonup> bytes"
  artifacts :: "(string \<times> bytes) list"
  stdout :: "string list"

definition print :: "string \<Rightarrow> state \<Rightarrow> state" where
  "print line st = st\<lparr>stdout := stdout st @ [line]\<rparr>"

subsection \<open>Formatting integers (the \<open>{i}\<close> of an f-string)\<close>

definition digit_char :: "nat \<Rightarrow> char" where
  "digit_char d = ''0123456789'' ! d"

fun str_nat :: "nat \<Rightarrow> string" where
  "str_nat n = (if n < 10 then [digit_char n] else str_nat (n div 10) @ [digit_char (n mod 10)])"

declare str_nat.simps [simp del]

definition str_int :: "int \<Rightarrow> string" where
  "str_int i = (if i < 0 then CHR ''-'' # str_nat (nat (- i)) else str_nat (nat i))"

subsection \<open>The library's random sources\<close>

text \<open>
  Each call of the module \<open>random\<close> consumes one draw of the seeded stream:
  \<open>random.random()\<close> is a multiple of \<open>2^-53\<close> in \<open>[0, 1)\<close>, \<open>random.randint(a, b)\<close> lies
  in \<open>[a, b]\<close> (the script calls it with \<open>a \<le> b\<close> only; Python raises otherwise),
  \<open>random.choice(seq)\<close> is a member of \<open>seq\<close> (the script calls it on a constant of
  24 bytes only; Python raises on an empty sequence). \<open>os.urandom(n)\<close> takes the next \<open>n\<close> bytes of the
  operating system's entropy, which no seed controls. On the values that
  \<open>random.random()\<close> returns, comparing with the double nearest to \<open>0.9\<close> and
  comparing with \<open>9/10\<close> agree, so the draw is a real number here.
\<close>

definition random_random :: "(nat \<Rightarrow> nat) \<Rightarrow> rng \<Rightarrow> real \<times> rng" where
  "random_random s g = (real (s (rpos g) mod 2 ^ 53) / 2 ^ 53, g\<lparr>rpos := rpos g + 1\<rparr>)"

definition random_randint :: "(nat \<Rightarrow> nat) \<Rightarrow> nat \<Rightarrow> nat \<Rightarrow> rng \<Rightarrow> nat \<times> rng" where
  "random_randint s a b g = (a + s (rpos g) mod (b - a + 1), g\<lparr>rpos := rpos g + 1\<rparr>)"

definition random_choice :: "(nat \<Rightarrow> nat) \<Rightarrow> 'a list \<Rightarrow> rng \<Rightarrow> 'a \<times> rng" where
  "random_choice s seq g = (seq ! (s (rpos g) mod length seq), g\<lparr>rpos := rpos g + 1\<rparr>)"

definition os_urandom :: "(nat \<Rightarrow> char) \<Rightarrow> nat \<Rightarrow> rng \<Rightarrow> bytes \<times> rng" where
  "os_urandom e n g = (map e [upos g ..< upos g + n], g\<lparr>upos := upos g + n\<rparr>)"

subsection \<open>The input generators\<close>

definition generate_garbage :: "(nat \<Rightarrow> char) \<Rightarrow> nat \<Rightarrow> rng \<Rightarrow> bytes \<times> rng" where
  "generate_garbage e len g = os_urandom e len g"

definition chars :: bytes where
  "chars = ''{}'' @ [CHR 0x22, CHR 0x27] @ '':,[]0123456789abcdef''"

text \<open>The generator expression \<open>random.choice(chars) for _ in range(length)\<close>.\<close>

fun choices :: "(nat \<Rightarrow> nat) \<Rightarrow> bytes \<Rightarrow> nat \<Rightarrow> rng \<Rightarrow> bytes \<times> rng" where
  "choices s cs 0 g = ([], g)"
| "choices s cs (Suc k) g =
     (let (c, g1) = random_choice s cs g;
          (rest, g2) = choices s cs k g1
      in (c # rest, g2))"

definition generate_json_garbage :: "(nat \<Rightarrow> nat) \<Rightarrow> rng \<Rightarrow> bytes \<times> rng" where
  "generate_json_garbage s g =
     (let (len, g1) = random_randint s 10 1000 g
      in choices s chars len g1)"

text \<open>Lines 30 to 36 of \<open>run_fuzz\<close>: the mix of strategies.\<close>

definition choose_payload :: "(nat \<Rightarrow> nat) \<Rightarrow> (nat \<Rightarrow> char) \<Rightarrow> rng \<Rightarrow> bytes \<times> rng" where
  "choose_payload s e g =
     (let (rand, g1) = random_random s g
      in if rand < 0.5 then
           (let (n, g2) = random_randint s 1 1024 g1 in generate_garbage e n g2)
         else if rand < 0.9 then generate_json_garbage s g1
         else ([], g1))"

subsection \<open>Processes\<close>

text \<open>
  \<open>Popen\<close> raises \<open>OSError\<close> when the executable cannot be started, and otherwise
  enters a running process in the table; the handle is its index.
  \<open>communicate\<close> hands the input over and waits: when the target exits in time the
  process is reaped and its return code known, otherwise \<open>TimeoutExpired\<close> is raised
  (the left summand) and the process is still running. \<open>kill\<close> sends the signal and
  returns; it does not wait for the process.
\<close>

definition Popen :: "config \<Rightarrow> world \<Rightarrow> state \<Rightarrow> exn + (nat \<times> state)" where
  "Popen cfg w st =
     (if spawn w (HARNESS cfg) (length (procs st))
      then Inr (length (procs st), st\<lparr>procs := procs st @ [\<lparr>input = [], status = Running\<rparr>]\<rparr>)
      else Inl (OSError (HARNESS cfg)))"

definition communicate :: "world \<Rightarrow> nat \<Rightarrow> bytes \<Rightarrow> state \<Rightarrow> state + (int \<times> state)" where
  "communicate w p data st =
     (case target w p data of
        Hangs \<Rightarrow> Inl (st\<lparr>procs := (procs st)[p := \<lparr>input = data, status = Running\<rparr>]\<rparr>)
      | Exits c \<Rightarrow> Inr (c, st\<lparr>procs := (procs st)[p := \<lparr>input = data, status = Reaped c\<rparr>]\<rparr>))"

definition kill :: "nat \<Rightarrow> state \<Rightarrow> state" where
  "kill p st = st\<lparr>procs := (procs st)[p := (procs st ! p)\<lparr>status := Killed\<rparr>]\<rparr>"

subsection \<open>Files\<close>

definition path_exists :: "string \<Rightarrow> state \<Rightarrow> bool" where
  "path_exists p st = (p \<in> dirs st \<or> files st p \<noteq> None)"

definition makedirs :: "world \<Rightarrow> string \<Rightarrow> state \<Rightarrow> exn option \<times> state" where
  "makedirs w p st =
     (if makedirs_ok w then (None, st\<lparr>dirs := insert p (dirs st)\<rparr>) else (Some (OSError p), st))"

definition open_wb :: "world \<Rightarrow> string \<Rightarrow> state \<Rightarrow> exn + state" where
  "open_wb w name st =
     (case disk w name of
        OpenFails \<Rightarrow> Inl (OSError name)
      | _ \<Rightarrow> Inr (st\<lparr>files := (files st)(name \<mapsto> []), handles := (handles st)(name \<mapsto> [])\<rparr>))"

text \<open>Writing to a file that is not open raises in Python; the script never does it.\<close>

definition f_write :: "string \<Rightarrow> bytes \<Rightarrow> state \<Rightarrow> state" where
  "f_write name data st =
     (case handles st name of
        None \<Rightarrow> st
      | Some buf \<Rightarrow> st\<lparr>handles := (handles st)(name \<mapsto> buf @ data)\<rparr>)"

definition f_close :: "world \<Rightarrow> string \<Rightarrow> state \<Rightarrow> exn option \<times> state" where
  "f_close w name st =
     (case handles st name of
        None \<Rightarrow> (None, st)
      | Some buf \<Rightarrow>
          (case disk w name of
             WriteFails k \<Rightarrow>
               (Some (OSError name),
                st\<lparr>files := (files st)(name \<mapsto> take k buf), handles := (handles st)(name := None)\<rparr>)
           | _ \<Rightarrow>
               (None,
                st\<lparr>files := (files st)(name \<mapsto> buf), handles := (handles st)(name := None),
                   artifacts := artifacts st @ [(name, buf)]\<rparr>)))"

text \<open>The statement \<open>with open(name, "wb") as f: f.write(data)\<close>.\<close>

definition with_open_write :: "world \<Rightarrow> string \<Rightarrow> bytes \<Rightarrow> state \<Rightarrow> exn option \<times> state" where
  "with_open_write w name data st =
     (case open_wb w name st of
        Inl e \<Rightarrow> (Some e, st)
      | Inr st1 \<Rightarrow> f_close w name (f_write name data st1))"

definition timeout_path :: "config \<Rightarrow> nat \<Rightarrow> string" where
  "timeout_path cfg i = CRASHES_DIR cfg @ ''/timeout_'' @ str_nat i @ ''.bin''"

definition crash_path :: "config \<Rightarrow> nat \<Rightarrow> string" where
  "crash_path cfg i = CRASHES_DIR cfg @ ''/crash_'' @ str_nat i @ ''.bin''"

subsection \<open>One supervised execution\<close>

text \<open>
  Lines 38 to 47 and the test of line 55: spawn, communicate, kill on
  \<open>TimeoutExpired\<close>, and the three ways the script goes on from there. \<open>Timeout\<close> is
  the \<open>except\<close> branch, \<open>AbnormalExit\<close> the branch \<open>process.returncode != 0\<close>,
  \<open>Normal\<close> the fall through.
\<close>

datatype outcome = Normal int | AbnormalExit int | Timeout

definition supervise :: "config \<Rightarrow> world \<Rightarrow> bytes \<Rightarrow> state \<Rightarrow> exn + (outcome \<times> state)" where
  "supervise cfg w data st =
     (case Popen cfg w st of
        Inl e \<Rightarrow> Inl e
      | Inr (process, st1) \<Rightarrow>
          (case communicate w process data st1 of
             Inl st2 \<Rightarrow> Inr (Timeout, kill process st2)
           | Inr (returncode, st2) \<Rightarrow>
               if returncode \<noteq> 0 then Inr (AbnormalExit returncode, st2)
               else Inr (Normal returncode, st2)))"

subsection \<open>The campaign\<close>

text \<open>
  The body of the loop. The \<open>continue\<close> of the timeout branch skips the progress
  line; an exception of \<open>Popen\<close> or of the \<open>with\<close> statement leaves the loop.
\<close>

definition progress :: "nat \<Rightarrow> state \<Rightarrow> state" where
  "progress i st =
     (if i mod 1000 = 0 then print (''Completed '' @ str_nat i @ '' iterations...'') st else st)"

definition iteration :: "config \<Rightarrow> world \<Rightarrow> nat \<Rightarrow> state \<Rightarrow> exn option \<times> state" where
  "iteration cfg w i st =
     (let (data, g) = choose_payload (seeded w) (entropy w) (gen st);
          st0 = st\<lparr>gen := g\<rparr>
      in case supervise cfg w data st0 of
           Inl e \<Rightarrow> (Some e, st0)
         | Inr (Timeout, st1) \<Rightarrow>
             (let st2 = print (''TIMEOUT on input size '' @ str_nat (length data)) st1
              in case with_open_write w (timeout_path cfg i) data st2 of
                   (Some e, st3) \<Rightarrow> (Some e, st3)
                 | (None, st3) \<Rightarrow> (None, st3\<lparr>crashes := crashes st3 + 1\<rparr>))
         | Inr (AbnormalExit returncode, st1) \<Rightarrow>
             (let st2 = print (''CRASH detected! Return code: '' @ str_int returncode) st1
              in case with_open_write w (crash_path cfg i) data st2 of
                   (Some e, st3) \<Rightarrow> (Some e, st3)
                 | (None, st3) \<Rightarrow> (None, progress i (st3\<lparr>crashes := crashes st3 + 1\<rparr>)))
         | Inr (Normal returncode, st1) \<Rightarrow> (None, progress i st1))"

text \<open>\<open>for i in range(ITERATIONS)\<close>, from index \<open>i\<close> with \<open>k\<close> iterations left.\<close>

fun loop :: "config \<Rightarrow> world \<Rightarrow> nat \<Rightarrow> nat \<Rightarrow> state \<Rightarrow> exn option \<times> state" where
  "loop cfg w i 0 st = (None, st)"
| "loop cfg w i (Suc k) st =
     (case iteration cfg w i st of
        (Some e, st') \<Rightarrow> (Some e, st')
      | (None, st') \<Rightarrow> loop cfg w (Suc i) k st')"

datatype result = SystemExit int | Uncaught exn

definition initial :: "world \<Rightarrow> state" where
  "initial w = \<lparr>crashes = 0, gen = \<lparr>rpos = 0, upos = 0\<rparr>, procs = [], dirs = dirs0 w,
     files = files0 w, handles = Map.empty, artifacts = [], stdout = []\<rparr>"

text \<open>Lines 21 to 26: the directory of the artifacts and the start of the campaign.\<close>

definition prepare :: "config \<Rightarrow> world \<Rightarrow> exn option \<times> state" where
  "prepare cfg w =
     (case (if \<not> path_exists (CRASHES_DIR cfg) (initial w)
            then makedirs w (CRASHES_DIR cfg) (initial w) else (None, initial w)) of
        (Some e, st) \<Rightarrow> (Some e, st)
      | (None, st) \<Rightarrow>
          (None, (print (''Starting Fuzzing Campaign: '' @ str_nat (ITERATIONS cfg) @ '' iterations...'') st)
                   \<lparr>crashes := 0\<rparr>))"

text \<open>Lines 64 to 73: the summary, the verdict and the exit code.\<close>

definition finish :: "world \<Rightarrow> state \<Rightarrow> result \<times> state" where
  "finish w st =
     (let st1 = print (''Fuzzing Complete in '' @ elapsed_2f w @ ''s'') st;
          st2 = print (''Total Crashes: '' @ str_nat (crashes st1)) st1
      in if crashes st2 = 0 then (SystemExit 0, print ''SUCCESS: No crashes found.'' st2)
         else (SystemExit 1, print ''FAILURE: Crashes detected.'' st2))"

text \<open>The state after the first \<open>k\<close> iterations, or at the exception that ended them.\<close>

definition after :: "config \<Rightarrow> world \<Rightarrow> nat \<Rightarrow> exn option \<times> state" where
  "after cfg w k =
     (case prepare cfg w of
        (Some e, st) \<Rightarrow> (Some e, st)
      | (None, st) \<Rightarrow> loop cfg w 0 k st)"

definition run_fuzz :: "config \<Rightarrow> world \<Rightarrow> result \<times> state" where
  "run_fuzz cfg w =
     (case after cfg w (ITERATIONS cfg) of
        (Some e, st) \<Rightarrow> (Uncaught e, st)
      | (None, st) \<Rightarrow> finish w st)"

subsection \<open>What a run is expected to do, as functions of the world\<close>

text \<open>
  The generator does not look at the target or at the disk, so the state of the random
  sources before iteration \<open>i\<close>, the payload of iteration \<open>i\<close> and what the target
  does with it are functions of the world alone. The theorems below relate the state that
  \<open>run_fuzz\<close> reaches to these functions.
\<close>

fun gen_at :: "(nat \<Rightarrow> nat) \<Rightarrow> (nat \<Rightarrow> char) \<Rightarrow> nat \<Rightarrow> rng" where
  "gen_at s e 0 = \<lparr>rpos = 0, upos = 0\<rparr>"
| "gen_at s e (Suc i) = snd (choose_payload s e (gen_at s e i))"

definition payload_at :: "(nat \<Rightarrow> nat) \<Rightarrow> (nat \<Rightarrow> char) \<Rightarrow> nat \<Rightarrow> bytes" where
  "payload_at s e i = fst (choose_payload s e (gen_at s e i))"

definition payload_of :: "world \<Rightarrow> nat \<Rightarrow> bytes" where
  "payload_of w i = payload_at (seeded w) (entropy w) i"

definition behaviour_at :: "world \<Rightarrow> nat \<Rightarrow> behaviour" where
  "behaviour_at w i = target w i (payload_of w i)"

definition proc_of :: "behaviour \<Rightarrow> bytes \<Rightarrow> proc" where
  "proc_of b data = \<lparr>input = data, status = (case b of Hangs \<Rightarrow> Killed | Exits c \<Rightarrow> Reaped c)\<rparr>"

definition saved_by :: "config \<Rightarrow> nat \<Rightarrow> behaviour \<Rightarrow> bytes \<Rightarrow> (string \<times> bytes) list" where
  "saved_by cfg i b data =
     (case b of
        Hangs \<Rightarrow> [(timeout_path cfg i, data)]
      | Exits c \<Rightarrow> if c \<noteq> 0 then [(crash_path cfg i, data)] else [])"

definition saved_at :: "config \<Rightarrow> world \<Rightarrow> nat \<Rightarrow> (string \<times> bytes) list" where
  "saved_at cfg w i = saved_by cfg i (behaviour_at w i) (payload_of w i)"

text \<open>The disk lets iteration \<open>i\<close> store what the behaviour \<open>b\<close> of the target calls for.\<close>

definition disk_allows :: "config \<Rightarrow> world \<Rightarrow> nat \<Rightarrow> behaviour \<Rightarrow> bool" where
  "disk_allows cfg w i b =
     (case b of
        Hangs \<Rightarrow> disk w (timeout_path cfg i) = DiskOk
      | Exits c \<Rightarrow> c = 0 \<or> disk w (crash_path cfg i) = DiskOk)"

text \<open>Iteration \<open>i\<close> meets no fault of the harness: the spawn and the write succeed.\<close>

definition step_ok :: "config \<Rightarrow> world \<Rightarrow> nat \<Rightarrow> bool" where
  "step_ok cfg w i = (spawn w (HARNESS cfg) i \<and> disk_allows cfg w i (behaviour_at w i))"

definition prepare_ok :: "config \<Rightarrow> world \<Rightarrow> bool" where
  "prepare_ok cfg w = (path_exists (CRASHES_DIR cfg) (initial w) \<or> makedirs_ok w)"

text \<open>No fault of the harness before or during the first \<open>n\<close> iterations.\<close>

definition harness_ok :: "config \<Rightarrow> world \<Rightarrow> nat \<Rightarrow> bool" where
  "harness_ok cfg w n = (prepare_ok cfg w \<and> (\<forall>i<n. step_ok cfg w i))"

text \<open>Reading a decimal numeral back, to show that \<open>str_nat\<close> loses nothing.\<close>

definition dec :: "string \<Rightarrow> nat" where
  "dec cs = foldl (\<lambda>a c. 10 * a + (of_char c - 48)) 0 cs"

text \<open>The file that iteration \<open>i\<close> writes when the target fails there.\<close>

definition artifact_name :: "config \<Rightarrow> world \<Rightarrow> nat \<Rightarrow> string" where
  "artifact_name cfg w i =
     (case behaviour_at w i of Hangs \<Rightarrow> timeout_path cfg i | Exits c \<Rightarrow> crash_path cfg i)"

subsection \<open>The invariant of the loop\<close>

text \<open>
  Before iteration \<open>i\<close> of a run without fault, \<open>i\<close> processes have been spawned and
  the random sources stand where \<open>gen_at\<close> says.
\<close>

definition aligned :: "world \<Rightarrow> nat \<Rightarrow> state \<Rightarrow> bool" where
  "aligned w i st = (length (procs st) = i \<and> gen st = gen_at (seeded w) (entropy w) i)"

definition proc_at :: "world \<Rightarrow> nat \<Rightarrow> proc" where
  "proc_at w i = proc_of (behaviour_at w i) (payload_of w i)"

subsection \<open>Example worlds\<close>

text \<open>
  A small campaign of three iterations. Every draw of the seeded generator is \<open>0\<close>, so
  each payload is one raw byte; the first target hangs, the second exits with \<open>0\<close>,
  the third is killed by signal 11.
\<close>

definition demo_world :: world where
  "demo_world = \<lparr>seeded = (\<lambda>_. 0), entropy = (\<lambda>_. CHR ''A''), dirs0 = {}, files0 = Map.empty,
     makedirs_ok = True, spawn = (\<lambda>_ _. True),
     target = (\<lambda>k _. if k = 0 then Hangs else if k = 1 then Exits 0 else Exits (- 11)),
     disk = (\<lambda>_. DiskOk), elapsed_2f = ''0.01''\<rparr>"

definition demo_config :: config where
  "demo_config = reference_config\<lparr>ITERATIONS := 3\<rparr>"



definition no_spawn_world :: world where
  "no_spawn_world = demo_world\<lparr>spawn := (\<lambda>_ k. k = 0)\<rparr>"

definition full_disk_world :: world where
  "full_disk_world = demo_world\<lparr>disk := (\<lambda>_. WriteFails 0)\<rparr>"

definition no_dir_world :: world where
  "no_dir_world = demo_world\<lparr>makedirs_ok := False\<rparr>"

section \<open>Properties\<close>

subsection \<open>File names\<close>

lemma dec_digit_char: "d < 10 \<Longrightarrow> of_char (digit_char d) - 48 = (d::nat)"
proof -
  assume "d < 10"
  then consider "d = 0" | "d = 1" | "d = 2" | "d = 3" | "d = 4" | "d = 5" | "d = 6" | "d = 7" | "d = 8" | "d = 9"
    by atomize_elim arith
  then show ?thesis
    by cases (simp_all add: digit_char_def)
qed

lemma dec_str_nat: "dec (str_nat n) = n"
proof (induction n rule: str_nat.induct)
  case (1 n)
  show ?case
  proof (cases "n < 10")
    case True
    then show ?thesis
      by (simp add: str_nat.simps [of n] dec_def dec_digit_char)
  next
    case False
    with 1 have "dec (str_nat (n div 10)) = n div 10" by simp
    moreover have "n mod 10 < 10" by simp
    ultimately show ?thesis
      using False by (simp add: str_nat.simps [of n] dec_def dec_digit_char)
  qed
qed

lemma str_nat_inj: "str_nat i = str_nat j \<Longrightarrow> i = j"
  by (metis dec_str_nat)

lemma timeout_path_inj: "timeout_path cfg i = timeout_path cfg j \<Longrightarrow> i = j"
  by (simp add: timeout_path_def str_nat_inj)

lemma crash_path_inj: "crash_path cfg i = crash_path cfg j \<Longrightarrow> i = j"
  by (simp add: crash_path_def str_nat_inj)

lemma timeout_crash_distinct: "timeout_path cfg i \<noteq> crash_path cfg j"
  by (simp add: timeout_path_def crash_path_def)

subsection \<open>The statements of one iteration, in closed form\<close>

lemma with_open_write_eq:
  "with_open_write w name data st =
     (case disk w name of
        OpenFails \<Rightarrow> (Some (OSError name), st)
      | WriteFails k \<Rightarrow> (Some (OSError name),
           st\<lparr>files := (files st)(name \<mapsto> take k data), handles := (handles st)(name := None)\<rparr>)
      | DiskOk \<Rightarrow> (None,
           st\<lparr>files := (files st)(name \<mapsto> data), handles := (handles st)(name := None),
              artifacts := artifacts st @ [(name, data)]\<rparr>))"
  by (simp add: with_open_write_def open_wb_def f_write_def f_close_def split: disk_response.splits)

lemma supervise_eq:
  "supervise cfg w data st =
     (if spawn w (HARNESS cfg) (length (procs st)) then
        (case target w (length (procs st)) data of
           Hangs \<Rightarrow> Inr (Timeout, st\<lparr>procs := procs st @ [\<lparr>input = data, status = Killed\<rparr>]\<rparr>)
         | Exits c \<Rightarrow> Inr (if c \<noteq> 0 then AbnormalExit c else Normal c,
                           st\<lparr>procs := procs st @ [\<lparr>input = data, status = Reaped c\<rparr>]\<rparr>))
      else Inl (OSError (HARNESS cfg)))"
  by (simp add: supervise_def Popen_def communicate_def kill_def split: behaviour.splits)

lemmas iteration_unfold =
  iteration_def supervise_eq with_open_write_eq print_def progress_def split_beta Let_def

lemma iteration_gen:
  "gen (snd (iteration cfg w i st)) = snd (choose_payload (seeded w) (entropy w) (gen st))"
  by (simp add: iteration_unfold split: behaviour.splits disk_response.splits)

lemma iteration_procs:
  "procs (snd (iteration cfg w i st)) =
     (if spawn w (HARNESS cfg) (length (procs st))
      then procs st @ [proc_of (target w (length (procs st)) (fst (choose_payload (seeded w) (entropy w) (gen st))))
                         (fst (choose_payload (seeded w) (entropy w) (gen st)))]
      else procs st)"
  by (simp add: iteration_unfold proc_of_def split: behaviour.splits disk_response.splits)

lemma iteration_None_iff:
  "fst (iteration cfg w i st) = None \<longleftrightarrow>
     spawn w (HARNESS cfg) (length (procs st)) \<and>
     disk_allows cfg w i (target w (length (procs st)) (fst (choose_payload (seeded w) (entropy w) (gen st))))"
  by (simp add: iteration_unfold disk_allows_def split: behaviour.splits disk_response.splits)

lemma iteration_artifacts:
  "artifacts (snd (iteration cfg w i st)) =
     (if fst (iteration cfg w i st) = None
      then artifacts st @ saved_by cfg i (target w (length (procs st)) (fst (choose_payload (seeded w) (entropy w) (gen st))))
                            (fst (choose_payload (seeded w) (entropy w) (gen st)))
      else artifacts st)"
  by (simp add: iteration_unfold saved_by_def split: behaviour.splits disk_response.splits)

lemma iteration_crashes:
  "crashes (snd (iteration cfg w i st)) + length (artifacts st) =
     crashes st + length (artifacts (snd (iteration cfg w i st)))"
  by (simp add: iteration_unfold split: behaviour.splits disk_response.splits)

lemma iteration_handles:
  "handles st = Map.empty \<Longrightarrow> handles (snd (iteration cfg w i st)) = Map.empty"
  by (simp add: iteration_unfold split: behaviour.splits disk_response.splits)

lemma iteration_files:
  "fst (iteration cfg w i st) = None \<Longrightarrow>
   files (snd (iteration cfg w i st)) =
     (files st) ++ map_of (saved_by cfg i (target w (length (procs st)) (fst (choose_payload (seeded w) (entropy w) (gen st))))
                            (fst (choose_payload (seeded w) (entropy w) (gen st))))"
  unfolding iteration_None_iff
  by (auto simp: iteration_unfold saved_by_def disk_allows_def split: behaviour.splits disk_response.splits)

subsection \<open>The outcome of a supervised execution\<close>

text \<open>
  C1: whenever the target is spawned, the supervision ends with exactly one of the three
  outcomes. It is \<open>Timeout\<close> exactly when the target outlives the timeout, and the
  process has then been sent the kill signal; it is \<open>Normal\<close>, with code \<open>0\<close>,
  exactly when the target exits with \<open>0\<close>; it is \<open>AbnormalExit c\<close> exactly when the
  target exits with the non-zero code \<open>c\<close>.
\<close>

theorem supervise_outcome:
  assumes "spawn w (HARNESS cfg) (length (procs st))"
  shows "\<exists>out st'. supervise cfg w data st = Inr (out, st') \<and>
           (of_bool (out = Timeout) + of_bool (\<exists>c. out = Normal c) + of_bool (\<exists>c. out = AbnormalExit c) = (1::nat)) \<and>
           (out = Timeout \<longleftrightarrow> target w (length (procs st)) data = Hangs) \<and>
           (out = Timeout \<longrightarrow> procs st' = procs st @ [\<lparr>input = data, status = Killed\<rparr>]) \<and>
           ((\<exists>c. out = Normal c) \<longleftrightarrow> target w (length (procs st)) data = Exits 0) \<and>
           (\<forall>c. out = Normal c \<longrightarrow> c = 0) \<and>
           (\<forall>c. out = AbnormalExit c \<longleftrightarrow> c \<noteq> 0 \<and> target w (length (procs st)) data = Exits c)"
proof (cases "target w (length (procs st)) data")
  case (Exits c)
  with assms show ?thesis
    by (cases "c = 0") (auto simp: supervise_eq)
next
  case Hangs
  with assms show ?thesis
    by (simp add: supervise_eq)
qed

theorem supervise_outcome_witness:
  "spawn demo_world (HARNESS demo_config) (length (procs (initial demo_world))) \<and>
   (\<exists>out st'. supervise demo_config demo_world ''A'' (initial demo_world) = Inr (out, st') \<and>
      (of_bool (out = Timeout) + of_bool (\<exists>c. out = Normal c) + of_bool (\<exists>c. out = AbnormalExit c) = (1::nat)) \<and>
      out = Timeout)"
proof -
  have h: "spawn demo_world (HARNESS demo_config) (length (procs (initial demo_world)))"
    by (simp add: demo_world_def)
  have t: "target demo_world (length (procs (initial demo_world))) ''A'' = Hangs"
    by (simp add: demo_world_def initial_def)
  from supervise_outcome [OF h, of "''A''"] t h show ?thesis
    by blast
qed

subsection \<open>The loop\<close>

lemma loop_split:
  "loop cfg w i (k + m) st =
     (case loop cfg w i k st of
        (Some e, s) \<Rightarrow> (Some e, s)
      | (None, s) \<Rightarrow> loop cfg w (i + k) m s)"
  by (induction k arbitrary: i st) (auto split: prod.splits option.splits)

lemma aligned_None_iff:
  "aligned w i st \<Longrightarrow> fst (iteration cfg w i st) = None \<longleftrightarrow> step_ok cfg w i"
  by (simp add: aligned_def iteration_None_iff step_ok_def behaviour_at_def payload_of_def payload_at_def)

lemma aligned_step:
  "aligned w i st \<Longrightarrow> step_ok cfg w i \<Longrightarrow> aligned w (Suc i) (snd (iteration cfg w i st))"
  by (simp add: aligned_def iteration_gen iteration_procs step_ok_def)

lemma aligned_procs:
  "aligned w i st \<Longrightarrow> spawn w (HARNESS cfg) i \<Longrightarrow>
   procs (snd (iteration cfg w i st)) = procs st @ [proc_at w i]"
  by (simp add: aligned_def iteration_procs proc_at_def behaviour_at_def payload_of_def payload_at_def)

lemma aligned_procs_fail:
  "aligned w i st \<Longrightarrow> \<not> spawn w (HARNESS cfg) i \<Longrightarrow> procs (snd (iteration cfg w i st)) = procs st"
  by (simp add: aligned_def iteration_procs)

lemma aligned_artifacts:
  "aligned w i st \<Longrightarrow> step_ok cfg w i \<Longrightarrow>
   artifacts (snd (iteration cfg w i st)) = artifacts st @ saved_at cfg w i"
proof -
  assume a: "aligned w i st" and ok: "step_ok cfg w i"
  have "fst (iteration cfg w i st) = None"
    using aligned_None_iff [OF a] ok by simp
  then show ?thesis
    using a by (simp add: iteration_artifacts aligned_def saved_at_def behaviour_at_def payload_of_def payload_at_def)
qed

lemma aligned_artifacts_fail:
  "aligned w i st \<Longrightarrow> \<not> step_ok cfg w i \<Longrightarrow> artifacts (snd (iteration cfg w i st)) = artifacts st"
proof -
  assume a: "aligned w i st" and ok: "\<not> step_ok cfg w i"
  have "fst (iteration cfg w i st) \<noteq> None"
    using aligned_None_iff [OF a] ok by simp
  then show ?thesis
    by (auto simp: iteration_artifacts)
qed

lemma upt_head: "[i..<i + Suc k] = i # [Suc i..<Suc i + k]"
  by (simp add: upt_conv_Cons del: upt_Suc)

lemma aligned_files:
  "aligned w i st \<Longrightarrow> step_ok cfg w i \<Longrightarrow>
   files (snd (iteration cfg w i st)) = files st ++ map_of (saved_at cfg w i)"
  using aligned_None_iff [of w i st cfg] iteration_files [of cfg w i st]
  by (simp add: aligned_def saved_at_def behaviour_at_def payload_of_def payload_at_def)

lemma loop_step_ok:
  "step_ok cfg w i \<Longrightarrow> aligned w i st \<Longrightarrow>
   loop cfg w i (Suc k) st = loop cfg w (Suc i) k (snd (iteration cfg w i st))"
  using aligned_None_iff [of w i st cfg]
  by (cases "iteration cfg w i st") (auto split: option.splits)

lemma loop_step_fail:
  "\<not> step_ok cfg w i \<Longrightarrow> aligned w i st \<Longrightarrow>
   loop cfg w i (Suc k) st = iteration cfg w i st"
  using aligned_None_iff [of w i st cfg]
  by (cases "iteration cfg w i st") (auto split: option.splits)

lemma loop_None_iff:
  "aligned w i st \<Longrightarrow> fst (loop cfg w i k st) = None \<longleftrightarrow> (\<forall>j<k. step_ok cfg w (i + j))"
proof (induction k arbitrary: i st)
  case 0
  then show ?case by simp
next
  case (Suc k)
  show ?case
  proof (cases "step_ok cfg w i")
    case True
    have "fst (loop cfg w i (Suc k) st) = None \<longleftrightarrow> (\<forall>j<k. step_ok cfg w (Suc i + j))"
      using Suc.IH [OF aligned_step [OF Suc.prems True]] loop_step_ok [OF True Suc.prems]
      by (simp del: loop.simps)
    also have "\<dots> \<longleftrightarrow> (\<forall>j<Suc k. step_ok cfg w (i + j))"
      using True by (auto simp: less_Suc_eq_0_disj)
    finally show ?thesis .
  next
    case False
    have "fst (loop cfg w i (Suc k) st) \<noteq> None"
      using loop_step_fail [OF False Suc.prems] aligned_None_iff [OF Suc.prems, of cfg] False
      by (simp del: loop.simps)
    moreover have "\<not> (\<forall>j<Suc k. step_ok cfg w (i + j))"
      using False by (auto intro: exI [of _ 0])
    ultimately show ?thesis by (auto simp del: loop.simps)
  qed
qed

lemma loop_aligned:
  "aligned w i st \<Longrightarrow> \<forall>j<k. step_ok cfg w (i + j) \<Longrightarrow> aligned w (i + k) (snd (loop cfg w i k st))"
proof (induction k arbitrary: i st)
  case 0
  then show ?case by simp
next
  case (Suc k)
  have ok: "step_ok cfg w i" using Suc.prems(2) by (auto dest: spec [of _ 0])
  have rest: "\<forall>j<k. step_ok cfg w (Suc i + j)" using Suc.prems(2) by auto
  show ?case
    using Suc.IH [OF aligned_step [OF Suc.prems(1) ok] rest] loop_step_ok [OF ok Suc.prems(1)]
    by (simp del: loop.simps)
qed

lemma loop_procs:
  "aligned w i st \<Longrightarrow> \<forall>j<k. step_ok cfg w (i + j) \<Longrightarrow>
   procs (snd (loop cfg w i k st)) = procs st @ map (proc_at w) [i..<i + k]"
proof (induction k arbitrary: i st)
  case 0
  then show ?case by simp
next
  case (Suc k)
  have ok: "step_ok cfg w i" using Suc.prems(2) by (auto dest: spec [of _ 0])
  have rest: "\<forall>j<k. step_ok cfg w (Suc i + j)" using Suc.prems(2) by auto
  have "procs (snd (loop cfg w i (Suc k) st)) = (procs st @ [proc_at w i]) @ map (proc_at w) [Suc i..<Suc i + k]"
    using Suc.IH [OF aligned_step [OF Suc.prems(1) ok] rest] loop_step_ok [OF ok Suc.prems(1)]
      aligned_procs [OF Suc.prems(1)] ok by (simp add: step_ok_def del: loop.simps)
  then show ?case by (simp only: upt_head list.map append_Cons append_Nil append_assoc)
qed

lemma loop_artifacts:
  "aligned w i st \<Longrightarrow> \<forall>j<k. step_ok cfg w (i + j) \<Longrightarrow>
   artifacts (snd (loop cfg w i k st)) = artifacts st @ concat (map (saved_at cfg w) [i..<i + k])"
proof (induction k arbitrary: i st)
  case 0
  then show ?case by simp
next
  case (Suc k)
  have ok: "step_ok cfg w i" using Suc.prems(2) by (auto dest: spec [of _ 0])
  have rest: "\<forall>j<k. step_ok cfg w (Suc i + j)" using Suc.prems(2) by auto
  have "artifacts (snd (loop cfg w i (Suc k) st)) =
          (artifacts st @ saved_at cfg w i) @ concat (map (saved_at cfg w) [Suc i..<Suc i + k])"
    using Suc.IH [OF aligned_step [OF Suc.prems(1) ok] rest] loop_step_ok [OF ok Suc.prems(1)]
      aligned_artifacts [OF Suc.prems(1) ok] by (simp del: loop.simps)
  then show ?case by (simp only: upt_head list.map concat.simps append_assoc)
qed

lemma loop_crashes:
  "crashes (snd (loop cfg w i k st)) + length (artifacts st) =
     crashes st + length (artifacts (snd (loop cfg w i k st)))"
proof (induction k arbitrary: i st)
  case 0
  then show ?case by simp
next
  case (Suc k)
  obtain x st1 where it: "iteration cfg w i st = (x, st1)" by (cases "iteration cfg w i st")
  have one: "crashes st1 + length (artifacts st) = crashes st + length (artifacts st1)"
    using iteration_crashes [of cfg w i st] it by simp
  show ?case
  proof (cases x)
    case None
    with it have "loop cfg w i (Suc k) st = loop cfg w (Suc i) k st1" by simp
    with Suc.IH [of "Suc i" st1] one show ?thesis by simp
  next
    case (Some e)
    with it have "loop cfg w i (Suc k) st = (Some e, st1)" by simp
    with one show ?thesis by simp
  qed
qed

lemma loop_handles:
  "handles st = Map.empty \<Longrightarrow> handles (snd (loop cfg w i k st)) = Map.empty"
proof (induction k arbitrary: i st)
  case 0
  then show ?case by simp
next
  case (Suc k)
  obtain x st1 where it: "iteration cfg w i st = (x, st1)" by (cases "iteration cfg w i st")
  have one: "handles st1 = Map.empty"
    using iteration_handles [OF Suc.prems, of cfg w i] it by simp
  show ?case
    using it one Suc.IH [OF one, of "Suc i"] by (cases x) simp_all
qed

subsection \<open>The whole run\<close>

lemma prepare_None_iff: "fst (prepare cfg w) = None \<longleftrightarrow> prepare_ok cfg w"
  by (simp add: prepare_def prepare_ok_def makedirs_def)

lemma prepare_fail:
  "\<not> prepare_ok cfg w \<Longrightarrow> prepare cfg w = (Some (OSError (CRASHES_DIR cfg)), initial w)"
  by (simp add: prepare_def prepare_ok_def makedirs_def)

lemma prepare_fields:
  "crashes (snd (prepare cfg w)) = 0"
  "artifacts (snd (prepare cfg w)) = []"
  "procs (snd (prepare cfg w)) = []"
  "handles (snd (prepare cfg w)) = Map.empty"
  "files (snd (prepare cfg w)) = files0 w"
  "gen (snd (prepare cfg w)) = \<lparr>rpos = 0, upos = 0\<rparr>"
  by (simp_all add: prepare_def makedirs_def initial_def print_def)

lemma prepare_aligned: "aligned w 0 (snd (prepare cfg w))"
  by (simp add: aligned_def prepare_fields)

lemma after_ok: "prepare_ok cfg w \<Longrightarrow> after cfg w k = loop cfg w 0 k (snd (prepare cfg w))"
  using prepare_None_iff [of cfg w]
  by (cases "prepare cfg w") (auto simp: after_def)

lemma after_prepare_fail: "\<not> prepare_ok cfg w \<Longrightarrow> after cfg w k = prepare cfg w"
  by (simp add: prepare_fail after_def)

lemma after_None_iff: "fst (after cfg w k) = None \<longleftrightarrow> harness_ok cfg w k"
proof (cases "prepare_ok cfg w")
  case True
  then show ?thesis
    using loop_None_iff [OF prepare_aligned, of cfg w k] by (simp add: after_ok harness_ok_def)
next
  case False
  then show ?thesis
    using prepare_None_iff [of cfg w] by (simp add: after_prepare_fail harness_ok_def)
qed

lemma harness_ok_steps: "harness_ok cfg w k \<Longrightarrow> \<forall>j<k. step_ok cfg w (0 + j)"
  by (simp add: harness_ok_def)

lemma harness_ok_mono: "harness_ok cfg w k \<Longrightarrow> j \<le> k \<Longrightarrow> harness_ok cfg w j"
  by (simp add: harness_ok_def)

lemma after_aligned: "harness_ok cfg w k \<Longrightarrow> aligned w k (snd (after cfg w k))"
  using loop_aligned [OF prepare_aligned, of k cfg w cfg] 
  by (simp add: after_ok harness_ok_def)

lemma after_procs: "harness_ok cfg w k \<Longrightarrow> procs (snd (after cfg w k)) = map (proc_at w) [0..<k]"
  using loop_procs [OF prepare_aligned, of k cfg w cfg]
  by (simp add: after_ok harness_ok_def prepare_fields)

lemma after_artifacts:
  "harness_ok cfg w k \<Longrightarrow> artifacts (snd (after cfg w k)) = concat (map (saved_at cfg w) [0..<k])"
  using loop_artifacts [OF prepare_aligned, of k cfg w cfg]
  by (simp add: after_ok harness_ok_def prepare_fields)

lemma after_crashes: "crashes (snd (after cfg w k)) = length (artifacts (snd (after cfg w k)))"
proof (cases "prepare_ok cfg w")
  case True
  then show ?thesis
    using loop_crashes [of cfg w 0 k "snd (prepare cfg w)"] by (simp add: after_ok prepare_fields)
next
  case False
  then show ?thesis
    by (simp add: after_prepare_fail prepare_fields)
qed

lemma after_handles: "handles (snd (after cfg w k)) = Map.empty"
proof (cases "prepare_ok cfg w")
  case True
  then show ?thesis
    using loop_handles [of "snd (prepare cfg w)" cfg w 0 k] by (simp add: after_ok prepare_fields)
next
  case False
  then show ?thesis
    by (simp add: after_prepare_fail prepare_fields)
qed

lemma after_Suc:
  "harness_ok cfg w k \<Longrightarrow> after cfg w (Suc k) = iteration cfg w k (snd (after cfg w k))"
proof -
  assume ok: "harness_ok cfg w k"
  then have p: "prepare_ok cfg w" by (simp add: harness_ok_def)
  have n: "fst (loop cfg w 0 k (snd (prepare cfg w))) = None"
    using after_None_iff [of cfg w k] ok p by (simp add: after_ok)
  have "loop cfg w 0 (k + Suc 0) (snd (prepare cfg w)) =
          (case loop cfg w 0 k (snd (prepare cfg w)) of
             (Some e, s) \<Rightarrow> (Some e, s)
           | (None, s) \<Rightarrow> loop cfg w (0 + k) (Suc 0) s)"
    by (rule loop_split)
  also have "\<dots> = loop cfg w k (Suc 0) (snd (loop cfg w 0 k (snd (prepare cfg w))))"
    using n by (cases "loop cfg w 0 k (snd (prepare cfg w))") (simp del: loop.simps)
  also have "\<dots> = iteration cfg w k (snd (loop cfg w 0 k (snd (prepare cfg w))))"
    by (cases "iteration cfg w k (snd (loop cfg w 0 k (snd (prepare cfg w))))")
       (auto split: option.splits)
  finally show ?thesis
    using p by (simp add: after_ok del: loop.simps)
qed

lemma after_fault:
  assumes "harness_ok cfg w m" and "\<not> step_ok cfg w m" and "m < k"
  shows "after cfg w k = iteration cfg w m (snd (after cfg w m))"
proof -
  have p: "prepare_ok cfg w" using assms(1) by (simp add: harness_ok_def)
  obtain r where k: "k = m + Suc r"
    using assms(3) by (auto dest: less_imp_Suc_add)
  have am: "after cfg w m = loop cfg w 0 m (snd (prepare cfg w))"
    by (rule after_ok [OF p])
  have n: "fst (loop cfg w 0 m (snd (prepare cfg w))) = None"
    using after_None_iff [of cfg w m] assms(1) unfolding am by blast
  have a: "aligned w m (snd (loop cfg w 0 m (snd (prepare cfg w))))"
    using after_aligned [OF assms(1)] unfolding am .
  have "after cfg w k = loop cfg w 0 (m + Suc r) (snd (prepare cfg w))"
    unfolding k by (rule after_ok [OF p])
  also have "\<dots> =
          (case loop cfg w 0 m (snd (prepare cfg w)) of
             (Some e, s) \<Rightarrow> (Some e, s)
           | (None, s) \<Rightarrow> loop cfg w (0 + m) (Suc r) s)"
    by (rule loop_split)
  also have "\<dots> = loop cfg w m (Suc r) (snd (loop cfg w 0 m (snd (prepare cfg w))))"
    using n by (cases "loop cfg w 0 m (snd (prepare cfg w))") (simp del: loop.simps)
  also have "\<dots> = iteration cfg w m (snd (loop cfg w 0 m (snd (prepare cfg w))))"
    by (rule loop_step_fail [OF assms(2) a])
  finally show ?thesis
    unfolding am .
qed

lemma finish_fields:
  "crashes (snd (finish w st)) = crashes st"
  "artifacts (snd (finish w st)) = artifacts st"
  "procs (snd (finish w st)) = procs st"
  "handles (snd (finish w st)) = handles st"
  "files (snd (finish w st)) = files st"
  "fst (finish w st) = SystemExit (if crashes st = 0 then 0 else 1)"
  by (simp_all add: finish_def print_def Let_def)

lemma run_fuzz_ok:
  "harness_ok cfg w (ITERATIONS cfg) \<Longrightarrow> run_fuzz cfg w = finish w (snd (after cfg w (ITERATIONS cfg)))"
  using after_None_iff [of cfg w "ITERATIONS cfg"]
  by (cases "after cfg w (ITERATIONS cfg)") (auto simp: run_fuzz_def)

lemma run_fuzz_fault:
  "\<not> harness_ok cfg w (ITERATIONS cfg) \<Longrightarrow>
   \<exists>e. run_fuzz cfg w = (Uncaught e, snd (after cfg w (ITERATIONS cfg))) \<and>
       fst (after cfg w (ITERATIONS cfg)) = Some e"
  using after_None_iff [of cfg w "ITERATIONS cfg"]
  by (cases "after cfg w (ITERATIONS cfg)") (auto simp: run_fuzz_def)

subsection \<open>The artifacts of a run\<close>

lemma saved_at_names:
  "(n, d) \<in> set (saved_at cfg w i) \<Longrightarrow>
   (n = timeout_path cfg i \<or> n = crash_path cfg i) \<and> d = payload_of w i"
  by (auto simp: saved_at_def saved_by_def split: behaviour.splits if_splits)

lemma saved_at_distinct: "distinct (map fst (saved_at cfg w i))"
  by (simp add: saved_at_def saved_by_def split: behaviour.splits)

lemma saved_at_empty_iff: "saved_at cfg w i = [] \<longleftrightarrow> behaviour_at w i = Exits 0"
  by (simp add: saved_at_def saved_by_def split: behaviour.splits)

lemma saved_upto_names:
  "(n, d) \<in> set (concat (map (saved_at cfg w) [0..<m])) \<Longrightarrow>
   \<exists>j<m. (n = timeout_path cfg j \<or> n = crash_path cfg j) \<and> d = payload_of w j"
  by (auto dest: saved_at_names)

lemma saved_upto_distinct: "distinct (map fst (concat (map (saved_at cfg w) [0..<m])))"
proof (induction m)
  case 0
  then show ?case by simp
next
  case (Suc m)
  have "fst ` set (concat (map (saved_at cfg w) [0..<m])) \<inter> fst ` set (saved_at cfg w m) = {}"
  proof (rule ccontr)
    assume "\<not> ?thesis"
    then obtain n d d' where a: "(n, d) \<in> set (concat (map (saved_at cfg w) [0..<m]))"
      and b: "(n, d') \<in> set (saved_at cfg w m)"
      by fastforce
    from saved_upto_names [OF a] obtain j where j: "j < m"
      "n = timeout_path cfg j \<or> n = crash_path cfg j" by blast
    from saved_at_names [OF b] have "n = timeout_path cfg m \<or> n = crash_path cfg m" by simp
    with j show False
      using timeout_path_inj [of cfg j m] crash_path_inj [of cfg j m]
        timeout_crash_distinct [of cfg j m] timeout_crash_distinct [of cfg m j]
      by auto
  qed
  with Suc saved_at_distinct [of cfg w m] show ?case
    by simp
qed

lemma saved_upto_empty_iff:
  "concat (map (saved_at cfg w) [0..<m]) = [] \<longleftrightarrow> (\<forall>i<m. behaviour_at w i = Exits 0)"
  by (auto simp: saved_at_empty_iff)

lemma first_fault:
  assumes "prepare_ok cfg w" and "\<not> harness_ok cfg w k"
  shows "\<exists>m<k. harness_ok cfg w m \<and> \<not> step_ok cfg w m"
proof -
  from assms have "\<exists>j. j < k \<and> \<not> step_ok cfg w j"
    by (auto simp: harness_ok_def)
  then obtain m where m: "m < k \<and> \<not> step_ok cfg w m"
    and least: "\<And>j. j < m \<Longrightarrow> \<not> (j < k \<and> \<not> step_ok cfg w j)"
    using exists_least_iff [of "\<lambda>j. j < k \<and> \<not> step_ok cfg w j"] by blast
  have "harness_ok cfg w m"
    using assms(1) m least by (auto simp: harness_ok_def)
  with m show ?thesis by blast
qed

lemma after_artifacts_prefix:
  "\<exists>m\<le>k. artifacts (snd (after cfg w k)) = concat (map (saved_at cfg w) [0..<m])"
proof (cases "harness_ok cfg w k")
  case True
  then show ?thesis using after_artifacts by blast
next
  case False
  show ?thesis
  proof (cases "prepare_ok cfg w")
    case p: True
    from first_fault [OF p False] obtain m where m: "m < k" "harness_ok cfg w m" "\<not> step_ok cfg w m"
      by blast
    have "artifacts (snd (after cfg w k)) = artifacts (snd (after cfg w m))"
      using after_fault [OF m(2) m(3) m(1)] aligned_artifacts_fail [OF after_aligned [OF m(2)] m(3)]
      by simp
    with after_artifacts [OF m(2)] m(1) show ?thesis
      by (intro exI [of _ m]) simp
  next
    case p: False
    then have "artifacts (snd (after cfg w k)) = concat (map (saved_at cfg w) [0..<0])"
      by (simp add: after_prepare_fail prepare_fields)
    then show ?thesis by blast
  qed
qed

lemma after_artifacts_distinct: "distinct (map fst (artifacts (snd (after cfg w k))))"
  using after_artifacts_prefix [of k cfg w] saved_upto_distinct [of cfg w] by auto

lemma run_fuzz_state:
  "crashes (snd (run_fuzz cfg w)) = crashes (snd (after cfg w (ITERATIONS cfg)))"
  "artifacts (snd (run_fuzz cfg w)) = artifacts (snd (after cfg w (ITERATIONS cfg)))"
  "procs (snd (run_fuzz cfg w)) = procs (snd (after cfg w (ITERATIONS cfg)))"
  "handles (snd (run_fuzz cfg w)) = handles (snd (after cfg w (ITERATIONS cfg)))"
  "files (snd (run_fuzz cfg w)) = files (snd (after cfg w (ITERATIONS cfg)))"
  by (cases "after cfg w (ITERATIONS cfg)"; cases "fst (after cfg w (ITERATIONS cfg))";
      simp add: run_fuzz_def finish_fields)+

lemma run_fuzz_exit_iff:
  "(\<exists>c. fst (run_fuzz cfg w) = SystemExit c) \<longleftrightarrow> harness_ok cfg w (ITERATIONS cfg)"
proof (cases "harness_ok cfg w (ITERATIONS cfg)")
  case True
  then show ?thesis by (simp add: run_fuzz_ok finish_fields)
next
  case False
  from run_fuzz_fault [OF False] False show ?thesis by auto
qed

lemma finish_verdict:
  "last (stdout (snd (finish w st))) =
     (if crashes st = 0 then ''SUCCESS: No crashes found.'' else ''FAILURE: Crashes detected.'')"
  by (simp add: finish_def print_def Let_def)

subsection \<open>The printed total; facts about the example world\<close>


lemma demo_iterations: "ITERATIONS demo_config = 3"
  by (simp add: demo_config_def)

lemma demo_prepare_ok: "prepare_ok demo_config demo_world"
  by (simp add: prepare_ok_def demo_world_def)

lemma demo_step_ok: "step_ok demo_config demo_world i"
  by (simp add: step_ok_def disk_allows_def demo_world_def split: behaviour.splits)

lemma demo_harness_ok: "harness_ok demo_config demo_world k"
  by (simp add: harness_ok_def demo_prepare_ok demo_step_ok)

lemma demo_behaviour:
  "behaviour_at demo_world 0 = Hangs"
  "behaviour_at demo_world 1 = Exits 0"
  "behaviour_at demo_world 2 = Exits (- 11)"
  by (simp_all add: behaviour_at_def demo_world_def)

subsection \<open>Verdict and exit code\<close>

text \<open>
  C2: when the campaign ends with \<open>sys.exit\<close>, the exit code is \<open>0\<close> if the crash counter
  is \<open>0\<close> and \<open>1\<close> otherwise, the last line printed is the success line in the first case
  and the failure line in the second, and the counter is \<open>0\<close> exactly when the target
  exited with \<open>0\<close> in time on every iteration.
\<close>

theorem verdict_and_exit_code:
  assumes "fst (run_fuzz cfg w) = SystemExit c"
  shows "c = (if crashes (snd (run_fuzz cfg w)) = 0 then 0 else 1) \<and>
         last (stdout (snd (run_fuzz cfg w))) =
           (if crashes (snd (run_fuzz cfg w)) = 0 then ''SUCCESS: No crashes found.''
            else ''FAILURE: Crashes detected.'') \<and>
         (crashes (snd (run_fuzz cfg w)) = 0 \<longleftrightarrow> (\<forall>i<ITERATIONS cfg. behaviour_at w i = Exits 0))"
proof -
  have ok: "harness_ok cfg w (ITERATIONS cfg)"
    using assms run_fuzz_exit_iff [of cfg w] by blast
  have run: "run_fuzz cfg w = finish w (snd (after cfg w (ITERATIONS cfg)))"
    by (rule run_fuzz_ok [OF ok])
  have cr: "crashes (snd (run_fuzz cfg w)) = crashes (snd (after cfg w (ITERATIONS cfg)))"
    by (rule run_fuzz_state)
  have "crashes (snd (after cfg w (ITERATIONS cfg))) =
          length (concat (map (saved_at cfg w) [0..<ITERATIONS cfg]))"
    by (simp only: after_crashes after_artifacts [OF ok])
  then have zero: "crashes (snd (after cfg w (ITERATIONS cfg))) = 0 \<longleftrightarrow>
      (\<forall>i<ITERATIONS cfg. behaviour_at w i = Exits 0)"
    using saved_upto_empty_iff [of cfg w "ITERATIONS cfg"] by simp
  have "SystemExit c = SystemExit (if crashes (snd (after cfg w (ITERATIONS cfg))) = 0 then 0 else 1)"
    using assms by (simp only: run finish_fields)
  then have "c = (if crashes (snd (after cfg w (ITERATIONS cfg))) = 0 then 0 else 1)"
    by simp
  moreover have "last (stdout (snd (run_fuzz cfg w))) =
      (if crashes (snd (after cfg w (ITERATIONS cfg))) = 0 then ''SUCCESS: No crashes found.''
       else ''FAILURE: Crashes detected.'')"
    by (simp only: run finish_verdict)
  ultimately show ?thesis
    using zero by (simp only: cr)
qed

theorem verdict_and_exit_code_witness:
  "fst (run_fuzz demo_config demo_world) = SystemExit 1 \<and>
   crashes (snd (run_fuzz demo_config demo_world)) \<noteq> 0 \<and>
   last (stdout (snd (run_fuzz demo_config demo_world))) = ''FAILURE: Crashes detected.''"
proof -
  obtain c where c: "fst (run_fuzz demo_config demo_world) = SystemExit c"
    using run_fuzz_exit_iff [of demo_config demo_world] demo_harness_ok by blast
  have "\<not> (\<forall>i<ITERATIONS demo_config. behaviour_at demo_world i = Exits 0)"
    using demo_behaviour(1) by (auto simp: demo_iterations intro: exI [of _ 0])
  with verdict_and_exit_code [OF c] c show ?thesis
    by auto
qed

subsection \<open>The number of executions\<close>

text \<open>
  C9: for every iteration budget, a run that meets no fault of the harness ends with
  \<open>sys.exit\<close> and has spawned exactly as many processes as the budget says: process
  \<open>i\<close> is the one execution of iteration \<open>i\<close>, on the payload of that iteration.
\<close>

theorem executions_equal_budget:
  assumes "harness_ok cfg w (ITERATIONS cfg)"
  shows "(\<exists>c. fst (run_fuzz cfg w) = SystemExit c) \<and>
         length (procs (snd (run_fuzz cfg w))) = ITERATIONS cfg \<and>
         procs (snd (run_fuzz cfg w)) = map (proc_at w) [0..<ITERATIONS cfg]"
proof -
  have "procs (snd (run_fuzz cfg w)) = map (proc_at w) [0..<ITERATIONS cfg]"
    by (simp only: run_fuzz_state after_procs [OF assms])
  then show ?thesis
    using assms run_fuzz_exit_iff [of cfg w] by simp
qed

theorem executions_equal_budget_witness:
  "harness_ok demo_config demo_world (ITERATIONS demo_config) \<and>
   length (procs (snd (run_fuzz demo_config demo_world))) = 3"
  using executions_equal_budget [OF demo_harness_ok [of "ITERATIONS demo_config"]] demo_harness_ok
  by (simp add: demo_iterations)

subsection \<open>The crash counter and the artifacts\<close>



subsection \<open>The content of the files\<close>

lemma saved_at_failing:
  "behaviour_at w i \<noteq> Exits 0 \<Longrightarrow> saved_at cfg w i = [(artifact_name cfg w i, payload_of w i)]"
  by (simp add: saved_at_def saved_by_def artifact_name_def split: behaviour.splits)

lemma harness_ok_Suc: "harness_ok cfg w (Suc k) \<longleftrightarrow> harness_ok cfg w k \<and> step_ok cfg w k"
  by (auto simp: harness_ok_def less_Suc_eq)

lemma after_files_Suc:
  "harness_ok cfg w (Suc k) \<Longrightarrow>
   files (snd (after cfg w (Suc k))) = files (snd (after cfg w k)) ++ map_of (saved_at cfg w k)"
  using after_Suc [of cfg w k] aligned_files [OF after_aligned [of cfg w k], of cfg]
  by (simp add: harness_ok_Suc)

lemma names_differ:
  "(n, d) \<in> set (saved_at cfg w i) \<Longrightarrow> i \<noteq> k \<Longrightarrow> map_of (saved_at cfg w k) n = None"
proof (rule ccontr)
  assume a: "(n, d) \<in> set (saved_at cfg w i)" and ne: "i \<noteq> k"
    and "map_of (saved_at cfg w k) n \<noteq> None"
  then obtain d' where "(n, d') \<in> set (saved_at cfg w k)"
    by (auto dest: map_of_SomeD)
  from saved_at_names [OF this] saved_at_names [OF a] ne show False
    using timeout_path_inj [of cfg i k] crash_path_inj [of cfg i k]
      timeout_crash_distinct [of cfg i k] timeout_crash_distinct [of cfg k i]
    by auto
qed

lemma after_files:
  "harness_ok cfg w k \<Longrightarrow> i < k \<Longrightarrow> (n, d) \<in> set (saved_at cfg w i) \<Longrightarrow>
   files (snd (after cfg w k)) n = Some d"
proof (induction k)
  case 0
  then show ?case by simp
next
  case (Suc k)
  have ok: "harness_ok cfg w k" using Suc.prems(1) by (simp add: harness_ok_Suc)
  show ?case
  proof (cases "i = k")
    case True
    have "map_of (saved_at cfg w k) n = Some d"
      using Suc.prems(3) True saved_at_distinct [of cfg w k] by simp
    then show ?thesis
      by (simp add: after_files_Suc [OF Suc.prems(1)])
  next
    case False
    then have "i < k" using Suc.prems(2) by simp
    from Suc.IH [OF ok this Suc.prems(3)] names_differ [OF Suc.prems(3) False]
    show ?thesis
      by (simp add: after_files_Suc [OF Suc.prems(1)] map_add_def)
  qed
qed

lemma concat_single:
  "i < n \<Longrightarrow> concat (map (\<lambda>j. if j = i then xs else []) [0..<n]) = xs"
proof (induction n)
  case 0
  then show ?case by simp
next
  case (Suc n)
  show ?case
  proof (cases "i = n")
    case True
    have "concat (map (\<lambda>j. if j = i then xs else []) [0..<n]) = []"
      using True by auto
    then show ?thesis using True by simp
  next
    case False
    with Suc show ?thesis by simp
  qed
qed

lemma filter_saved_at:
  "behaviour_at w i \<noteq> Exits 0 \<Longrightarrow>
   filter (\<lambda>a. fst a \<in> {timeout_path cfg i, crash_path cfg i}) (saved_at cfg w j) =
     (if j = i then [(artifact_name cfg w i, payload_of w i)] else [])"
proof (cases "j = i")
  case True
  assume "behaviour_at w i \<noteq> Exits 0"
  then show ?thesis
    using True by (simp add: saved_at_failing) (simp add: artifact_name_def split: behaviour.splits)
next
  case False
  have "\<And>n d. (n, d) \<in> set (saved_at cfg w j) \<Longrightarrow> n \<notin> {timeout_path cfg i, crash_path cfg i}"
    using False timeout_path_inj [of cfg j i] crash_path_inj [of cfg j i]
      timeout_crash_distinct [of cfg i j] timeout_crash_distinct [of cfg j i]
    by (auto dest!: saved_at_names)
  then have "filter (\<lambda>a. fst a \<in> {timeout_path cfg i, crash_path cfg i}) (saved_at cfg w j) = []"
    by (auto simp: filter_empty_conv)
  with False show ?thesis by simp
qed

lemma filter_saved_upto:
  assumes "behaviour_at w i \<noteq> Exits 0" and "i < n"
  shows "filter (\<lambda>a. fst a \<in> {timeout_path cfg i, crash_path cfg i})
           (concat (map (saved_at cfg w) [0..<n])) = [(artifact_name cfg w i, payload_of w i)]"
proof -
  have "filter (\<lambda>a. fst a \<in> {timeout_path cfg i, crash_path cfg i}) (concat (map (saved_at cfg w) [0..<n])) =
        concat (map (\<lambda>j. if j = i then [(artifact_name cfg w i, payload_of w i)] else []) [0..<n])"
    by (simp only: filter_concat map_map o_def filter_saved_at [OF assms(1)])
  then show ?thesis
    by (simp only: concat_single [OF assms(2)])
qed

lemma proc_at_input: "input (proc_at w i) = payload_of w i"
  by (simp add: proc_at_def proc_of_def)

lemma with_open_write_done:
  "fst (with_open_write w name data st) = None \<Longrightarrow>
   files (snd (with_open_write w name data st)) name = Some data \<and>
   handles (snd (with_open_write w name data st)) name = None"
  by (simp add: with_open_write_eq split: disk_response.splits)

lemma crash_timeout_distinct: "crash_path cfg j \<noteq> timeout_path cfg i"
  using timeout_crash_distinct [of cfg i j] by simp

lemma artifact_name_inj: "artifact_name cfg w j = artifact_name cfg w i \<Longrightarrow> j = i"
  by (auto simp: artifact_name_def timeout_crash_distinct crash_timeout_distinct
        dest: timeout_path_inj crash_path_inj split: behaviour.splits)

subsection \<open>One artifact per failing iteration\<close>

text \<open>
  C3: in a run without fault of the harness, every iteration \<open>i\<close> on which the target
  hangs or exits with a non-zero code leaves exactly one artifact under the two names that
  belong to \<open>i\<close>: \<open>timeout_i.bin\<close> after a timeout, \<open>crash_i.bin\<close> after an abnormal
  exit, in the directory of the crashes. The file holds exactly the bytes handed to the
  process of that iteration. All artifact names of the run are pairwise distinct, and
  the name determines the iteration.
\<close>

theorem artifact_per_failing_iteration:
  assumes "harness_ok cfg w (ITERATIONS cfg)" and "i < ITERATIONS cfg"
    and "behaviour_at w i \<noteq> Exits 0"
  shows "filter (\<lambda>a. fst a \<in> {timeout_path cfg i, crash_path cfg i}) (artifacts (snd (run_fuzz cfg w))) =
           [(artifact_name cfg w i, input (procs (snd (run_fuzz cfg w)) ! i))] \<and>
         artifact_name cfg w i =
           (if behaviour_at w i = Hangs then CRASHES_DIR cfg @ ''/timeout_'' @ str_nat i @ ''.bin''
            else CRASHES_DIR cfg @ ''/crash_'' @ str_nat i @ ''.bin'') \<and>
         files (snd (run_fuzz cfg w)) (artifact_name cfg w i) = Some (input (procs (snd (run_fuzz cfg w)) ! i)) \<and>
         distinct (map fst (artifacts (snd (run_fuzz cfg w)))) \<and>
         (\<forall>j. artifact_name cfg w j = artifact_name cfg w i \<longrightarrow> j = i)"
proof -
  let ?n = "ITERATIONS cfg"
  have inp: "input (procs (snd (run_fuzz cfg w)) ! i) = payload_of w i"
    using assms(2) by (simp add: run_fuzz_state after_procs [OF assms(1)] proc_at_input)
  have one: "filter (\<lambda>a. fst a \<in> {timeout_path cfg i, crash_path cfg i}) (artifacts (snd (run_fuzz cfg w))) =
           [(artifact_name cfg w i, payload_of w i)]"
    by (simp only: run_fuzz_state after_artifacts [OF assms(1)] filter_saved_upto [OF assms(3) assms(2)])
  have name: "artifact_name cfg w i =
           (if behaviour_at w i = Hangs then CRASHES_DIR cfg @ ''/timeout_'' @ str_nat i @ ''.bin''
            else CRASHES_DIR cfg @ ''/crash_'' @ str_nat i @ ''.bin'')"
    by (simp add: artifact_name_def timeout_path_def crash_path_def split: behaviour.splits)
  have "(artifact_name cfg w i, payload_of w i) \<in> set (saved_at cfg w i)"
    by (simp add: saved_at_failing [OF assms(3)])
  then have fl: "files (snd (run_fuzz cfg w)) (artifact_name cfg w i) = Some (payload_of w i)"
    using after_files [OF assms(1) assms(2)] by (simp only: run_fuzz_state)
  have dist: "distinct (map fst (artifacts (snd (run_fuzz cfg w))))"
    by (simp only: run_fuzz_state after_artifacts_distinct)
  have inj: "\<forall>j. artifact_name cfg w j = artifact_name cfg w i \<longrightarrow> j = i"
    by (blast dest: artifact_name_inj)
  show ?thesis
    using one name fl dist inj by (simp only: inp)
qed

theorem artifact_per_failing_iteration_witness:
  "harness_ok demo_config demo_world (ITERATIONS demo_config) \<and> 0 < ITERATIONS demo_config \<and>
   behaviour_at demo_world 0 \<noteq> Exits 0 \<and>
   artifact_name demo_config demo_world 0 = CRASHES_DIR demo_config @ ''/timeout_'' @ str_nat 0 @ ''.bin'' \<and>
   files (snd (run_fuzz demo_config demo_world)) (artifact_name demo_config demo_world 0) =
     Some (input (procs (snd (run_fuzz demo_config demo_world)) ! 0))"
proof -
  have h1: "harness_ok demo_config demo_world (ITERATIONS demo_config)" by (rule demo_harness_ok)
  have h2: "0 < ITERATIONS demo_config" by (simp add: demo_iterations)
  have h3: "behaviour_at demo_world 0 \<noteq> Exits 0" by (simp add: demo_behaviour)
  note t = artifact_per_failing_iteration [OF h1 h2 h3]
  have a: "artifact_name demo_config demo_world 0 =
      CRASHES_DIR demo_config @ ''/timeout_'' @ str_nat 0 @ ''.bin''"
  proof -
    from t have "artifact_name demo_config demo_world 0 =
           (if behaviour_at demo_world 0 = Hangs
            then CRASHES_DIR demo_config @ ''/timeout_'' @ str_nat 0 @ ''.bin''
            else CRASHES_DIR demo_config @ ''/crash_'' @ str_nat 0 @ ''.bin'')"
      by blast
    then show ?thesis by (simp add: demo_behaviour)
  qed
  have b: "files (snd (run_fuzz demo_config demo_world)) (artifact_name demo_config demo_world 0) =
     Some (input (procs (snd (run_fuzz demo_config demo_world)) ! 0))"
    using t by blast
  show ?thesis
    using h1 h2 h3 a b by blast
qed

subsection \<open>Persistence before the next iteration\<close>

text \<open>
  C4: when iteration \<open>i\<close> fails (timeout or abnormal exit) and no fault of the harness
  occurs, the state in which the loop goes on holds the artifact of \<open>i\<close> in the file
  system with the whole payload, has no file open and no buffer unflushed, and has the
  artifact as the last completed write; iteration \<open>i + 1\<close> starts from that state.
  In general the \<open>with\<close> statement returns without exception only after the file
  holds all the data and is closed.
\<close>

theorem crash_record_persisted_before_next_iteration:
  assumes "harness_ok cfg w (Suc i)" and "behaviour_at w i \<noteq> Exits 0"
  shows "files (snd (after cfg w (Suc i))) (artifact_name cfg w i) = Some (payload_of w i) \<and>
         handles (snd (after cfg w (Suc i))) = Map.empty \<and>
         last (artifacts (snd (after cfg w (Suc i)))) = (artifact_name cfg w i, payload_of w i) \<and>
         after cfg w (Suc (Suc i)) = iteration cfg w (Suc i) (snd (after cfg w (Suc i))) \<and>
         (\<forall>name data st. fst (with_open_write w name data st) = None \<longrightarrow>
            files (snd (with_open_write w name data st)) name = Some data \<and>
            handles (snd (with_open_write w name data st)) name = None)"
proof -
  have "(artifact_name cfg w i, payload_of w i) \<in> set (saved_at cfg w i)"
    by (simp add: saved_at_failing [OF assms(2)])
  then have fl: "files (snd (after cfg w (Suc i))) (artifact_name cfg w i) = Some (payload_of w i)"
    using after_files [OF assms(1), of i] by simp
  have "artifacts (snd (after cfg w (Suc i))) =
          concat (map (saved_at cfg w) [0..<i]) @ [(artifact_name cfg w i, payload_of w i)]"
    by (simp add: after_artifacts [OF assms(1)] saved_at_failing [OF assms(2)])
  then have lst: "last (artifacts (snd (after cfg w (Suc i)))) = (artifact_name cfg w i, payload_of w i)"
    by simp
  show ?thesis
    using fl lst after_handles [of cfg w "Suc i"] after_Suc [OF assms(1)] with_open_write_done [of w]
    by blast
qed

theorem crash_record_persisted_before_next_iteration_witness:
  "harness_ok demo_config demo_world (Suc 0) \<and> behaviour_at demo_world 0 \<noteq> Exits 0 \<and>
   files (snd (after demo_config demo_world (Suc 0))) (timeout_path demo_config 0) = Some (payload_of demo_world 0) \<and>
   handles (snd (after demo_config demo_world (Suc 0))) = Map.empty"
proof -
  have h1: "harness_ok demo_config demo_world (Suc 0)" by (rule demo_harness_ok)
  have h3: "behaviour_at demo_world 0 \<noteq> Exits 0" by (simp add: demo_behaviour)
  have n: "artifact_name demo_config demo_world 0 = timeout_path demo_config 0"
    by (simp add: artifact_name_def demo_behaviour)
  from crash_record_persisted_before_next_iteration [OF h1 h3] h1 h3 show ?thesis
    unfolding n by blast
qed

subsection \<open>The random sources\<close>

lemma chars_length: "length chars = 24"
  by (simp add: chars_def)






lemma choices_rpos: "rpos (snd (choices s cs k g)) = rpos g + k"
  by (induction k arbitrary: g) (simp_all add: split_beta random_choice_def)

subsection \<open>The choice of the strategy\<close>



subsection \<open>The payloads of a run\<close>










subsection \<open>Faults of the harness\<close>

lemma aligned_fault_exn:
  "aligned w i st \<Longrightarrow> \<not> step_ok cfg w i \<Longrightarrow>
   fst (iteration cfg w i st) =
     Some (OSError (if spawn w (HARNESS cfg) i then artifact_name cfg w i else HARNESS cfg))"
  by (auto simp: iteration_unfold step_ok_def disk_allows_def artifact_name_def behaviour_at_def
        payload_of_def payload_at_def aligned_def split: behaviour.splits disk_response.splits)

lemma aligned_crashes_fail:
  "aligned w i st \<Longrightarrow> \<not> step_ok cfg w i \<Longrightarrow> crashes (snd (iteration cfg w i st)) = crashes st"
  using iteration_crashes [of cfg w i st] aligned_artifacts_fail [of w i st cfg] by simp

lemma run_fuzz_at_fault:
  assumes "harness_ok cfg w m" and "m < ITERATIONS cfg" and "\<not> step_ok cfg w m"
  shows "run_fuzz cfg w =
     (Uncaught (OSError (if spawn w (HARNESS cfg) m then artifact_name cfg w m else HARNESS cfg)),
      snd (iteration cfg w m (snd (after cfg w m))))"
proof -
  have eq: "after cfg w (ITERATIONS cfg) = iteration cfg w m (snd (after cfg w m))"
    by (rule after_fault [OF assms(1) assms(3) assms(2)])
  have "fst (iteration cfg w m (snd (after cfg w m))) =
     Some (OSError (if spawn w (HARNESS cfg) m then artifact_name cfg w m else HARNESS cfg))"
    by (rule aligned_fault_exn [OF after_aligned [OF assms(1)] assms(3)])
  then show ?thesis
    by (cases "iteration cfg w m (snd (after cfg w m))") (simp add: run_fuzz_def eq)
qed

lemma no_spawn_facts:
  "harness_ok demo_config no_spawn_world 1"
  "\<not> step_ok demo_config no_spawn_world 1"
  "\<not> spawn no_spawn_world (HARNESS demo_config) 1"
  by (simp_all add: harness_ok_def prepare_ok_def step_ok_def disk_allows_def no_spawn_world_def
        demo_world_def split: behaviour.splits)

lemma full_disk_facts:
  "harness_ok demo_config full_disk_world 0"
  "\<not> step_ok demo_config full_disk_world 0"
  "spawn full_disk_world (HARNESS demo_config) 0"
  by (simp_all add: harness_ok_def prepare_ok_def step_ok_def disk_allows_def full_disk_world_def
        demo_world_def behaviour_at_def)

lemma no_dir_facts: "\<not> prepare_ok demo_config no_dir_world"
  by (simp add: prepare_ok_def no_dir_world_def demo_world_def path_exists_def initial_def)

text \<open>
  C7: a fault of the harness ends the campaign with an uncaught \<open>OSError\<close>, never with
  \<open>sys.exit\<close>. When the directory of the crashes cannot be created, nothing has run.
  When iteration \<open>m\<close> is the first that cannot spawn the target or cannot write its
  artifact, the exception names the executable or the file, the crash counter and the
  trace of artifacts are those reached before iteration \<open>m\<close>, and no process is
  spawned after the one of iteration \<open>m\<close>.
\<close>

theorem harness_fault_aborts:
  "(\<not> prepare_ok cfg w \<longrightarrow>
      run_fuzz cfg w = (Uncaught (OSError (CRASHES_DIR cfg)), initial w)) \<and>
   (harness_ok cfg w m \<and> m < ITERATIONS cfg \<and> \<not> step_ok cfg w m \<longrightarrow>
      fst (run_fuzz cfg w) =
        Uncaught (OSError (if spawn w (HARNESS cfg) m then artifact_name cfg w m else HARNESS cfg)) \<and>
      (\<forall>c. fst (run_fuzz cfg w) \<noteq> SystemExit c) \<and>
      crashes (snd (run_fuzz cfg w)) = crashes (snd (after cfg w m)) \<and>
      artifacts (snd (run_fuzz cfg w)) = artifacts (snd (after cfg w m)) \<and>
      procs (snd (run_fuzz cfg w)) =
        map (proc_at w) [0..<(if spawn w (HARNESS cfg) m then Suc m else m)])"
proof -
  have a: "\<not> prepare_ok cfg w \<longrightarrow>
      run_fuzz cfg w = (Uncaught (OSError (CRASHES_DIR cfg)), initial w)"
    by (simp add: run_fuzz_def after_prepare_fail prepare_fail)
  have b: "harness_ok cfg w m \<and> m < ITERATIONS cfg \<and> \<not> step_ok cfg w m \<longrightarrow>
      fst (run_fuzz cfg w) =
        Uncaught (OSError (if spawn w (HARNESS cfg) m then artifact_name cfg w m else HARNESS cfg)) \<and>
      (\<forall>c. fst (run_fuzz cfg w) \<noteq> SystemExit c) \<and>
      crashes (snd (run_fuzz cfg w)) = crashes (snd (after cfg w m)) \<and>
      artifacts (snd (run_fuzz cfg w)) = artifacts (snd (after cfg w m)) \<and>
      procs (snd (run_fuzz cfg w)) =
        map (proc_at w) [0..<(if spawn w (HARNESS cfg) m then Suc m else m)]"
  proof
    assume h: "harness_ok cfg w m \<and> m < ITERATIONS cfg \<and> \<not> step_ok cfg w m"
    then have ok: "harness_ok cfg w m" and lt: "m < ITERATIONS cfg" and bad: "\<not> step_ok cfg w m"
      by simp_all
    note al = after_aligned [OF ok]
    note run = run_fuzz_at_fault [OF ok lt bad]
    have r1: "fst (run_fuzz cfg w) =
        Uncaught (OSError (if spawn w (HARNESS cfg) m then artifact_name cfg w m else HARNESS cfg))"
      by (simp only: run fst_conv)
    have r2: "\<forall>c. fst (run_fuzz cfg w) \<noteq> SystemExit c"
      by (simp only: r1) simp
    have r3: "crashes (snd (run_fuzz cfg w)) = crashes (snd (after cfg w m))"
      by (simp only: run snd_conv aligned_crashes_fail [OF al bad])
    have r4: "artifacts (snd (run_fuzz cfg w)) = artifacts (snd (after cfg w m))"
      by (simp only: run snd_conv aligned_artifacts_fail [OF al bad])
    have r5: "procs (snd (run_fuzz cfg w)) =
        map (proc_at w) [0..<(if spawn w (HARNESS cfg) m then Suc m else m)]"
    proof (cases "spawn w (HARNESS cfg) m")
      case True
      then show ?thesis
        by (simp add: run aligned_procs [OF al True] after_procs [OF ok])
    next
      case False
      then show ?thesis
        by (simp add: run aligned_procs_fail [OF al False] after_procs [OF ok])
    qed
    show "fst (run_fuzz cfg w) =
        Uncaught (OSError (if spawn w (HARNESS cfg) m then artifact_name cfg w m else HARNESS cfg)) \<and>
      (\<forall>c. fst (run_fuzz cfg w) \<noteq> SystemExit c) \<and>
      crashes (snd (run_fuzz cfg w)) = crashes (snd (after cfg w m)) \<and>
      artifacts (snd (run_fuzz cfg w)) = artifacts (snd (after cfg w m)) \<and>
      procs (snd (run_fuzz cfg w)) =
        map (proc_at w) [0..<(if spawn w (HARNESS cfg) m then Suc m else m)]"
      using r1 r2 r3 r4 r5 by blast
  qed
  show ?thesis using a b by blast
qed

theorem harness_fault_aborts_witness:
  "\<not> prepare_ok demo_config no_dir_world \<and>
   run_fuzz demo_config no_dir_world = (Uncaught (OSError (CRASHES_DIR demo_config)), initial no_dir_world) \<and>
   harness_ok demo_config no_spawn_world 1 \<and> 1 < ITERATIONS demo_config \<and>
   \<not> step_ok demo_config no_spawn_world 1 \<and>
   fst (run_fuzz demo_config no_spawn_world) = Uncaught (OSError (HARNESS demo_config)) \<and>
   length (procs (snd (run_fuzz demo_config no_spawn_world))) = 1 \<and>
   harness_ok demo_config full_disk_world 0 \<and> 0 < ITERATIONS demo_config \<and>
   \<not> step_ok demo_config full_disk_world 0 \<and>
   fst (run_fuzz demo_config full_disk_world) = Uncaught (OSError (artifact_name demo_config full_disk_world 0)) \<and>
   crashes (snd (run_fuzz demo_config full_disk_world)) = 0 \<and>
   artifacts (snd (run_fuzz demo_config full_disk_world)) = []"
proof -
  have i1: "1 < ITERATIONS demo_config" and i0: "0 < ITERATIONS demo_config"
    by (simp_all add: demo_iterations)
  have w1: "run_fuzz demo_config no_dir_world =
      (Uncaught (OSError (CRASHES_DIR demo_config)), initial no_dir_world)"
    using harness_fault_aborts [of demo_config no_dir_world 0] no_dir_facts by blast
  have w2: "fst (run_fuzz demo_config no_spawn_world) = Uncaught (OSError (HARNESS demo_config)) \<and>
      procs (snd (run_fuzz demo_config no_spawn_world)) = map (proc_at no_spawn_world) [0..<1]"
    using harness_fault_aborts [of demo_config no_spawn_world 1] no_spawn_facts i1 by simp
  have w3: "fst (run_fuzz demo_config full_disk_world) =
        Uncaught (OSError (artifact_name demo_config full_disk_world 0)) \<and>
      crashes (snd (run_fuzz demo_config full_disk_world)) = crashes (snd (after demo_config full_disk_world 0)) \<and>
      artifacts (snd (run_fuzz demo_config full_disk_world)) = artifacts (snd (after demo_config full_disk_world 0))"
    using harness_fault_aborts [of demo_config full_disk_world 0] full_disk_facts i0 by simp
  have z: "crashes (snd (after demo_config full_disk_world 0)) = 0"
    "artifacts (snd (after demo_config full_disk_world 0)) = []"
    using after_artifacts [OF full_disk_facts(1)] by (simp_all add: after_crashes)
  have l: "length (procs (snd (run_fuzz demo_config no_spawn_world))) = 1"
    using w2 by simp
  show ?thesis
    using no_dir_facts w1 no_spawn_facts i1 i0 w2 l full_disk_facts w3 z by simp
qed

subsection \<open>The life of the target processes\<close>

lemma proc_at_status:
  "status (proc_at w i) = (case behaviour_at w i of Hangs \<Rightarrow> Killed | Exits c \<Rightarrow> Reaped c)"
  by (simp add: proc_at_def proc_of_def)

text \<open>
  C8 asks that a supervised execution ends only when its process has terminated and been
  reaped, on every path. The script does so when the target exits by itself:
  \<open>communicate\<close> returns with the return code. After \<open>TimeoutExpired\<close> it calls
  \<open>process.kill()\<close> and goes on without waiting for the process. The theorem shows what
  the process table holds at any later point of a run without fault of the harness: one
  entry per iteration, the entry of an iteration that timed out still killed and not
  reaped, the entry of an iteration whose target exited reaped with its code.
\<close>

theorem timed_out_process_is_not_reaped:
  assumes "harness_ok cfg w k" and "i < k"
  shows "length (procs (snd (after cfg w k))) = k \<and>
         (behaviour_at w i = Hangs \<longrightarrow> status (procs (snd (after cfg w k)) ! i) = Killed) \<and>
         (\<forall>c. behaviour_at w i = Exits c \<longrightarrow> status (procs (snd (after cfg w k)) ! i) = Reaped c) \<and>
         (k = ITERATIONS cfg \<longrightarrow> procs (snd (run_fuzz cfg w)) = procs (snd (after cfg w k)))"
  using assms(2) by (simp add: after_procs [OF assms(1)] proc_at_status run_fuzz_state)

theorem timed_out_process_is_not_reaped_witness:
  "harness_ok demo_config demo_world 3 \<and> (0::nat) < 3 \<and> behaviour_at demo_world 0 = Hangs \<and>
   status (procs (snd (run_fuzz demo_config demo_world)) ! 0) = Killed \<and>
   status (procs (snd (run_fuzz demo_config demo_world)) ! 1) = Reaped 0"
proof -
  have h: "harness_ok demo_config demo_world 3" by (rule demo_harness_ok)
  have k: "3 = ITERATIONS demo_config" by (simp add: demo_iterations)
  have a: "status (procs (snd (run_fuzz demo_config demo_world)) ! 0) = Killed"
    using timed_out_process_is_not_reaped [OF h, of 0] k demo_behaviour(1) by simp
  have b: "status (procs (snd (run_fuzz demo_config demo_world)) ! 1) = Reaped 0"
    using timed_out_process_is_not_reaped [OF h, of 1] k demo_behaviour(2) by simp
  show ?thesis
    using h a b demo_behaviour(1) by simp
qed

end
